theory Spec2Isabelle
  imports Main "HOL-Library.Word"
begin

unbundle bit_operations_syntax

section \<open>The IMA-ADPCM sample decoder of server2.js\<close>

text \<open>
  JavaScript numbers are modelled as \<open>int\<close>: every value the decoder computes is an
  integer far below \<open>2 ^ 31\<close>, so the 32-bit bitwise operators \<open>>>\<close> and \<open>&\<close> agree
  with \<open>drop_bit\<close> and \<open>AND\<close>. A code is the natural number that the caller obtains by
  masking a byte with \<open>0x0F\<close>. Bytes of a \<open>Buffer\<close> are \<open>8 word\<close>, elements of an
  \<open>Int16Array\<close> are \<open>16 word\<close>.
\<close>

type_synonym byte = "8 word"
type_synonym int16 = "16 word"

definition stepTable :: "int list" where
  "stepTable =
    [7, 8, 9, 10, 11, 12, 13, 14,
     16, 17, 19, 21, 23, 25, 28, 31,
     34, 37, 41, 45, 50, 55, 60, 66,
     73, 80, 88, 97, 107, 118, 130, 143,
     157, 173, 190, 209, 230, 253, 279, 307,
     337, 371, 408, 449, 494, 544, 598, 658,
     724, 796, 876, 963, 1060, 1166, 1282, 1411,
     1552, 1707, 1878, 2066, 2272, 2499, 2749, 3024,
     3327, 3660, 4026, 4428, 4871, 5358, 5894, 6484,
     7132, 7845, 8630, 9493, 10442, 11487, 12635, 13899,
     15289, 16818, 18500, 20350, 22385, 24623, 27086, 29794,
     32767]"

definition indexTable :: "int list" where
  "indexTable =
    [-1, -1, -1, -1, 2, 4, 6, 8,
     -1, -1, -1, -1, 2, 4, 6, 8]"

text \<open>The two fields of class \<open>ADPCMDecoder\<close>.\<close>

record ADPCMDecoder =
  predictor :: int
  stepIndex :: int

text \<open>The constructor of \<open>ADPCMDecoder\<close>.\<close>

definition new_ADPCMDecoder :: ADPCMDecoder where
  "new_ADPCMDecoder = \<lparr>predictor = 0, stepIndex = 0\<rparr>"

text \<open>
  The local variable \<open>difference\<close> of \<open>decodeSample\<close>, after its four statements
  (\<open>step >> 3\<close>, then the three conditional additions on \<open>code & 4\<close>, \<open>code & 2\<close>,
  \<open>code & 1\<close>).
\<close>

definition difference :: "int \<Rightarrow> nat \<Rightarrow> int" where
  "difference step code =
    (let d0 = drop_bit 3 step;
         d1 = (if code AND 4 \<noteq> 0 then d0 + step else d0);
         d2 = (if code AND 2 \<noteq> 0 then d1 + drop_bit 1 step else d1);
         d3 = (if code AND 1 \<noteq> 0 then d2 + drop_bit 2 step else d2)
     in d3)"

text \<open>
  \<open>decodeSample(code)\<close>: the returned sample and the decoder after the call. The table
  reads are in range whenever \<open>0 \<le> stepIndex \<le> 88\<close> and \<open>code < 16\<close>, which is the case
  on every call that \<open>decode\<close> makes on a decoder made by the constructor.
\<close>

definition decodeSample :: "nat \<Rightarrow> ADPCMDecoder \<Rightarrow> int \<times> ADPCMDecoder" where
  "decodeSample code d =
    (let step = stepTable ! nat (stepIndex d);
         diff = difference step code;
         p = (if code AND 8 \<noteq> 0 then predictor d - diff else predictor d + diff);
         p' = min 32767 (max (-32768) p);
         si = stepIndex d + indexTable ! code;
         si' = min 88 (max 0 si)
     in (p', \<lparr>predictor = p', stepIndex = si'\<rparr>))"

text \<open>
  \<open>decode(adpcmData)\<close>: the \<open>for\<close> loop over \<open>i\<close>, with the running \<open>pcmOffset\<close> and
  the preallocated \<open>Int16Array\<close> \<open>pcmData\<close>. Storing a number in an \<open>Int16Array\<close> keeps
  its low 16 bits (\<open>word_of_int\<close>); a store past the end of a typed array is ignored, as
  is \<open>list_update\<close> past the end of a list. The high nibble is \<open>(byte >> 4) & 0x0F\<close>, the
  low nibble \<open>byte & 0x0F\<close>.
\<close>

function decode_loop ::
  "byte list \<Rightarrow> nat \<Rightarrow> nat \<Rightarrow> int16 list \<Rightarrow> ADPCMDecoder \<Rightarrow> int16 list \<times> ADPCMDecoder" where
  "decode_loop adpcmData i pcmOffset pcmData d =
    (if i < length adpcmData then
       (let byte = unat (adpcmData ! i);
            r1 = decodeSample (drop_bit 4 byte AND 0x0F) d;
            pcmData1 = pcmData[pcmOffset := word_of_int (fst r1)];
            r2 = decodeSample (byte AND 0x0F) (snd r1);
            pcmData2 = pcmData1[pcmOffset + 1 := word_of_int (fst r2)]
        in decode_loop adpcmData (i + 1) (pcmOffset + 2) pcmData2 (snd r2))
     else (pcmData, d))"
  by pat_completeness auto
termination
  by (relation "measure (\<lambda>(adpcmData, i, pcmOffset, pcmData, d). length adpcmData - i)") auto

declare decode_loop.simps [simp del]

definition decode :: "byte list \<Rightarrow> ADPCMDecoder \<Rightarrow> int16 list \<times> ADPCMDecoder" where
  "decode adpcmData d =
     decode_loop adpcmData 0 0 (replicate (length adpcmData * 2) 0) d"

section \<open>The \<open>Buffer\<close> operations used by the transform\<close>

text \<open>
  Overwriting a buffer from an offset on; a \<open>Buffer\<close> never grows, bytes that do not fit
  are dropped.
\<close>

definition overwrite :: "byte list \<Rightarrow> nat \<Rightarrow> byte list \<Rightarrow> byte list" where
  "overwrite buf off bs =
     take (length buf) (take off buf @ bs @ drop (off + length bs) buf)"

text \<open>\<open>Buffer.alloc(n)\<close>: a zero-filled buffer of \<open>n\<close> bytes.\<close>

definition Buffer_alloc :: "nat \<Rightarrow> byte list" where
  "Buffer_alloc n = replicate n 0"

text \<open>
  \<open>source.copy(target, targetStart, sourceStart, sourceEnd)\<close>: copies the bytes of
  \<open>source\<close> from \<open>sourceStart\<close> up to \<open>sourceEnd\<close>, or up to the end of \<open>source\<close> when it
  is shorter.
\<close>

definition Buffer_copy :: "byte list \<Rightarrow> byte list \<Rightarrow> nat \<Rightarrow> nat \<Rightarrow> nat \<Rightarrow> byte list" where
  "Buffer_copy source target targetStart sourceStart sourceEnd =
     overwrite target targetStart (take (sourceEnd - sourceStart) (drop sourceStart source))"

text \<open>\<open>buf.write(string, offset)\<close> for an ASCII string: one byte per character.\<close>

definition Buffer_write :: "byte list \<Rightarrow> string \<Rightarrow> nat \<Rightarrow> byte list" where
  "Buffer_write buf s off = overwrite buf off (map of_char s)"

text \<open>
  \<open>buf.writeInt32LE(value, offset)\<close> and \<open>buf.writeInt16LE(value, offset)\<close>: the two's
  complement bytes of the value, least significant first. Node raises a \<open>RangeError\<close>
  when the value or the offset does not fit; every call of the transform passes
  constants that fit a 44-byte buffer.
\<close>

definition writeInt32LE :: "byte list \<Rightarrow> int \<Rightarrow> nat \<Rightarrow> byte list" where
  "writeInt32LE buf v off =
     overwrite buf off
       [word_of_int v, word_of_int (drop_bit 8 v), word_of_int (drop_bit 16 v),
        word_of_int (drop_bit 24 v)]"

definition writeInt16LE :: "byte list \<Rightarrow> int \<Rightarrow> nat \<Rightarrow> byte list" where
  "writeInt16LE buf v off =
     overwrite buf off [word_of_int v, word_of_int (drop_bit 8 v)]"

text \<open>
  \<open>Buffer.from(pcmData.buffer)\<close>: the bytes of the \<open>Int16Array\<close>'s memory. Typed arrays
  use the byte order of the host, little-endian on every platform Node runs on: each
  element gives its low byte, then its high byte.
\<close>

definition Buffer_from :: "int16 list \<Rightarrow> byte list" where
  "Buffer_from pcmData = concat (map (\<lambda>w. [ucast w, ucast (drop_bit 8 w)]) pcmData)"

section \<open>The streaming transform \<open>ADPCMToPCMTransform\<close>\<close>

record ADPCMToPCMTransform =
  decoder :: ADPCMDecoder
  headerWritten :: bool
  dataSize :: int

text \<open>The constructor.\<close>

definition new_ADPCMToPCMTransform :: ADPCMToPCMTransform where
  "new_ADPCMToPCMTransform =
     \<lparr>decoder = new_ADPCMDecoder, headerWritten = False, dataSize = 0\<rparr>"

text \<open>
  The header block of \<open>_transform\<close> (\<open>Buffer.alloc(44)\<close>, the copy from the chunk and the
  eleven writes), in the order of the source.
\<close>

definition make_header :: "byte list \<Rightarrow> byte list" where
  "make_header chunk =
    (let h0 = Buffer_alloc 44;
         h1 = Buffer_copy chunk h0 0 0 44;
         h2 = Buffer_write h1 ''RIFF'' 0;
         h3 = Buffer_write h2 ''WAVE'' 8;
         h4 = Buffer_write h3 ''fmt '' 12;
         h5 = writeInt32LE h4 16 16;
         h6 = writeInt16LE h5 1 20;
         h7 = writeInt16LE h6 1 22;
         h8 = writeInt32LE h7 16000 24;
         h9 = writeInt32LE h8 32000 28;
         h10 = writeInt16LE h9 2 32;
         h11 = writeInt16LE h10 16 34;
         h12 = Buffer_write h11 ''data'' 36
     in h12)"

text \<open>
  One call of \<open>_transform(chunk, encoding, callback)\<close>: the buffers given to
  \<open>this.push\<close>, in order; the argument of the final \<open>callback()\<close>, which is the error
  reported to the stream (always absent in the source); and the transform afterwards.
\<close>

record transform_result =
  pushed :: "byte list list"
  callback_error :: "string option"
  this :: ADPCMToPCMTransform

definition transform :: "byte list \<Rightarrow> ADPCMToPCMTransform \<Rightarrow> transform_result" where
  "transform chunk t =
    (if \<not> headerWritten t then
       (let header = make_header chunk;
            t1 = t\<lparr>headerWritten := True\<rparr>
        in if length chunk > 44 then
             (let data = drop 44 chunk;
                  r = decode data (decoder t1)
              in \<lparr>pushed = [header, Buffer_from (fst r)], callback_error = None,
                  this = t1\<lparr>decoder := snd r\<rparr>\<rparr>)
           else \<lparr>pushed = [header], callback_error = None, this = t1\<rparr>)
     else
       (let r = decode chunk (decoder t)
        in \<lparr>pushed = [Buffer_from (fst r)], callback_error = None,
            this = t\<lparr>decoder := snd r\<rparr>\<rparr>))"

text \<open>
  The stream machinery around \<open>_transform\<close> (\<open>readStream.pipe(transform)\<close>): one call per
  chunk, in arrival order, each on the transform the previous call left; a call whose
  callback reports an error ends the stream. \<open>pipe\<close> gives the result of every call made,
  \<open>sink_bytes\<close> the bytes that reach the sink, the pushed buffers in order.
\<close>

fun pipe :: "ADPCMToPCMTransform \<Rightarrow> byte list list \<Rightarrow> transform_result list" where
  "pipe t [] = []"
| "pipe t (chunk # chunks) =
     (let r = transform chunk t
      in r # (case callback_error r of
                None \<Rightarrow> pipe (this r) chunks
              | Some e \<Rightarrow> []))"

definition sink_bytes :: "transform_result list \<Rightarrow> byte list" where
  "sink_bytes rs = concat (concat (map pushed rs))"

section \<open>Definitions used to state the properties\<close>

text \<open>
  The decoder after the calls \<open>decodeSample(c)\<close>, for the codes \<open>c\<close> of a list in order,
  on a decoder made by the constructor: the reachable decoder states.
\<close>

definition decoder_after :: "nat list \<Rightarrow> ADPCMDecoder" where
  "decoder_after codes = foldl (\<lambda>d c. snd (decodeSample c d)) new_ADPCMDecoder codes"

text \<open>
  The algorithm of the specification, step by step in its own words, with arithmetic in
  place of the shifts and bit numbers in place of the masks: the magnitude is
  \<open>step / 8\<close>, plus \<open>step\<close>, \<open>step / 2\<close>, \<open>step / 4\<close> for the bits 2, 1, 0 of the code;
  bit 3 subtracts; both results are clamped to their closed ranges.
\<close>

definition spec_clamp :: "int \<Rightarrow> int \<Rightarrow> int \<Rightarrow> int" where
  "spec_clamp lo hi x = (if x < lo then lo else if hi < x then hi else x)"

definition spec_decode_sample :: "nat \<Rightarrow> ADPCMDecoder \<Rightarrow> int \<times> ADPCMDecoder" where
  "spec_decode_sample code s =
    (let step = stepTable ! nat (stepIndex s);
         magnitude = step div 8
           + (if bit code 2 then step else 0)
           + (if bit code 1 then step div 2 else 0)
           + (if bit code 0 then step div 4 else 0);
         p = spec_clamp (- 32768) 32767
               (if bit code 3 then predictor s - magnitude else predictor s + magnitude);
         i = spec_clamp 0 88 (stepIndex s + indexTable ! code)
     in (p, \<lparr>predictor = p, stepIndex = i\<rparr>))"

text \<open>
  Reading a header back: the bytes from \<open>start\<close> up to \<open>end\<close> (\<open>buf.slice\<close>), the bytes of
  an ASCII tag, and the unsigned little-endian fields (\<open>buf.readUInt16LE\<close>,
  \<open>buf.readUInt32LE\<close>).
\<close>

definition slice :: "byte list \<Rightarrow> nat \<Rightarrow> nat \<Rightarrow> byte list" where
  "slice buf start end = take (end - start) (drop start buf)"

definition ascii :: "string \<Rightarrow> byte list" where
  "ascii s = map of_char s"

definition readUInt16LE :: "byte list \<Rightarrow> nat \<Rightarrow> int" where
  "readUInt16LE buf off = uint (buf ! off) + 256 * uint (buf ! (off + 1))"

definition readUInt32LE :: "byte list \<Rightarrow> nat \<Rightarrow> int" where
  "readUInt32LE buf off =
     uint (buf ! off) + 256 * uint (buf ! (off + 1)) + 65536 * uint (buf ! (off + 2))
       + 16777216 * uint (buf ! (off + 3))"

text \<open>
  The byte of a chunk at an index where the header block writes
  nothing, or zero when the chunk has no such byte.
\<close>

definition kept :: "byte list \<Rightarrow> nat \<Rightarrow> byte" where
  "kept chunk i = (if i < length chunk then chunk ! i else 0)"

text \<open>
  Example input: the 44-byte header of a mono IMA-ADPCM upload (format tag \<open>0x11\<close>,
  16000 Hz, 4 bits per sample) whose \<open>data\<close> size field says 4, and a first chunk made
  of that header and the two payload bytes \<open>0xF0\<close>, \<open>0x7F\<close>.
\<close>

definition example_header :: "byte list" where
  "example_header =
     [82, 73, 70, 70, 40, 0, 0, 0, 87, 65, 86, 69, 102, 109, 116, 32,
      16, 0, 0, 0, 17, 0, 1, 0, 128, 62, 0, 0, 64, 31, 0, 0,
      1, 0, 4, 0, 100, 97, 116, 97, 4, 0, 0, 0]"

definition example_chunk :: "byte list" where
  "example_chunk = example_header @ [0xF0, 0x7F]"

section \<open>Properties of the sample decoder\<close>

lemma code_cases:
  "(c::nat) < 16 \<Longrightarrow> c = 0 \<or> c = 1 \<or> c = 2 \<or> c = 3 \<or> c = 4 \<or> c = 5 \<or> c = 6 \<or> c = 7
     \<or> c = 8 \<or> c = 9 \<or> c = 10 \<or> c = 11 \<or> c = 12 \<or> c = 13 \<or> c = 14 \<or> c = 15"
  by arith

lemma and8_bit: "(c::nat) AND 8 \<noteq> 0 \<longleftrightarrow> bit c 3"
  using and_exp_eq_0_iff_not_bit [of c 3] by simp

lemma and4_bit: "(c::nat) AND 4 \<noteq> 0 \<longleftrightarrow> bit c 2"
  using and_exp_eq_0_iff_not_bit [of c 2] by simp

lemma and2_bit: "(c::nat) AND 2 \<noteq> 0 \<longleftrightarrow> bit c 1"
  using and_exp_eq_0_iff_not_bit [of c 1] by simp

lemma and1_bit: "(c::nat) AND 1 \<noteq> 0 \<longleftrightarrow> bit c 0"
  using and_exp_eq_0_iff_not_bit [of c 0] by simp

lemma length_stepTable: "length stepTable = 89"
  by (simp add: stepTable_def)

lemma length_indexTable: "length indexTable = 16"
  by (simp add: indexTable_def)

lemma decodeSample_fst: "fst (decodeSample c d) = predictor (snd (decodeSample c d))"
  by (simp add: decodeSample_def Let_def)

lemma decodeSample_predictor:
  "- 32768 \<le> predictor (snd (decodeSample c d)) \<and> predictor (snd (decodeSample c d)) \<le> 32767"
  by (simp add: decodeSample_def Let_def)

lemma decodeSample_stepIndex:
  "0 \<le> stepIndex (snd (decodeSample c d)) \<and> stepIndex (snd (decodeSample c d)) \<le> 88"
  by (simp add: decodeSample_def Let_def)

lemma decoder_after_snoc:
  "decoder_after (codes @ [c]) = snd (decodeSample c (decoder_after codes))"
  by (simp add: decoder_after_def)

lemma decoder_after_range:
  "- 32768 \<le> predictor (decoder_after codes) \<and> predictor (decoder_after codes) \<le> 32767
     \<and> 0 \<le> stepIndex (decoder_after codes) \<and> stepIndex (decoder_after codes) \<le> 88"
proof (cases codes rule: rev_cases)
  case Nil
  then show ?thesis by (simp add: decoder_after_def new_ADPCMDecoder_def)
next
  case (snoc cs c)
  then show ?thesis
    using decodeSample_predictor [of c "decoder_after cs"]
      decodeSample_stepIndex [of c "decoder_after cs"]
    by (simp add: decoder_after_snoc)
qed

lemma indexTable_sign_bit:
  "c < 16 \<Longrightarrow> indexTable ! (c OR 8) = indexTable ! c \<and> indexTable ! (c AND 7) = indexTable ! c"
  by (drule code_cases) (elim disjE; simp add: indexTable_def)

text \<open>
  C8, as the specification words it, fails in its last part: from the state
  \<open>{predictor: 0, stepIndex: 0}\<close> the code \<open>0xF\<close> does not leave the step index at 0.
\<close>

theorem scenario_counterexample:
  "stepIndex (snd (decodeSample 15 \<lparr>predictor = 0, stepIndex = 0\<rparr>)) \<noteq> 0"
  by (simp add: decodeSample_def difference_def stepTable_def indexTable_def)

text \<open>
  C8, amended: from the state \<open>{predictor: 0, stepIndex: 0}\<close>, \<open>decodeSample(0x0)\<close> returns 0
  and the step index, \<open>0 + indexTable[0] = -1\<close>, is clamped back to 0; from the same state,
  \<open>decodeSample(0xF)\<close> computes \<open>difference = 0 + 7 + 3 + 1 = 11\<close> from \<open>stepTable[0] = 7\<close>,
  returns \<open>-11\<close> as the new predictor, and the step index becomes
  \<open>0 + indexTable[15] = 8\<close>, which the clamp to \<open>[0, 88]\<close> leaves unchanged.
\<close>

theorem scenario_codes_0_and_15:
  "decodeSample 0 \<lparr>predictor = 0, stepIndex = 0\<rparr> = (0, \<lparr>predictor = 0, stepIndex = 0\<rparr>)
   \<and> stepTable ! 0 = 7 \<and> indexTable ! 0 = - 1 \<and> indexTable ! 15 = 8
   \<and> difference (stepTable ! 0) 15 = 0 + 7 + 3 + 1
   \<and> decodeSample 15 \<lparr>predictor = 0, stepIndex = 0\<rparr> = (- 11, \<lparr>predictor = - 11, stepIndex = 8\<rparr>)"
  by (simp add: decodeSample_def difference_def stepTable_def indexTable_def)

text \<open>
  C2, the decoder state invariant: after any sequence of \<open>decodeSample\<close> calls with 4-bit
  codes on a new decoder (the empty sequence included), the predictor lies in
  \<open>[-32768, 32767]\<close> and the step index in \<open>[0, 88]\<close>; so the next read of \<open>stepTable\<close> is
  in range.
\<close>

theorem decoder_state_invariant:
  assumes "\<forall>c \<in> set codes. c < 16"
  shows "- 32768 \<le> predictor (decoder_after codes) \<and> predictor (decoder_after codes) \<le> 32767
     \<and> 0 \<le> stepIndex (decoder_after codes) \<and> stepIndex (decoder_after codes) \<le> 88
     \<and> nat (stepIndex (decoder_after codes)) < length stepTable"
  using decoder_after_range [of codes] by (auto simp add: length_stepTable)

theorem decoder_state_invariant_witness:
  "list_all (\<lambda>c. c < 16) [15, 7, 0, 12 :: nat]
   \<and> decoder_after [15, 7, 0, 12] = \<lparr>predictor = - 11, stepIndex = 17\<rparr>
   \<and> - 32768 \<le> predictor (decoder_after [15, 7, 0, 12])
   \<and> predictor (decoder_after [15, 7, 0, 12]) \<le> 32767
   \<and> 0 \<le> stepIndex (decoder_after [15, 7, 0, 12])
   \<and> stepIndex (decoder_after [15, 7, 0, 12]) \<le> 88"
proof -
  have h: "\<forall>c \<in> set [15, 7, 0, 12 :: nat]. c < 16" by simp
  have v: "decoder_after [15, 7, 0, 12] = \<lparr>predictor = - 11, stepIndex = 17\<rparr>" by code_simp
  show ?thesis using h v decoder_state_invariant [OF h] by simp
qed


text \<open>
  C3: for every state with the step index in \<open>[0, 88]\<close> and every 4-bit code,
  \<open>decodeSample\<close> computes what the algorithm of the specification computes: the
  magnitude from \<open>stepTable[stepIndex]\<close> and the bits 2, 1, 0 of the code, subtracted from
  the predictor when bit 3 is set and added otherwise, the predictor clamped to
  \<open>[-32768, 32767]\<close>, the step index moved by \<open>indexTable[code]\<close> and clamped to \<open>[0, 88]\<close>,
  and the clamped predictor returned.
\<close>

theorem decodeSample_refines_spec:
  assumes "0 \<le> stepIndex d" and "stepIndex d \<le> 88" and "code < 16"
  shows "decodeSample code d = spec_decode_sample code d"
proof -
  have bits: "(code AND 8 \<noteq> 0) = bit code 3" "(code AND 4 \<noteq> 0) = bit code 2"
    "(code AND 2 \<noteq> 0) = bit code 1" "(code AND 1 \<noteq> 0) = bit code 0"
    by (rule and8_bit and4_bit and2_bit and1_bit)+
  have mag: "difference step code = step div 8
           + (if bit code 2 then step else 0)
           + (if bit code 1 then step div 2 else 0)
           + (if bit code 0 then step div 4 else 0)" for step
    unfolding difference_def Let_def bits by (simp add: drop_bit_eq_div)
  have clamp: "min hi (max lo x) = spec_clamp lo hi x" if "lo \<le> hi" for lo hi x :: int
    using that by (simp add: spec_clamp_def min_def max_def)
  show ?thesis
    unfolding decodeSample_def spec_decode_sample_def Let_def bits mag
    by (simp add: clamp)
qed

theorem decodeSample_refines_spec_witness:
  "(0::int) \<le> stepIndex \<lparr>predictor = 100, stepIndex = 40\<rparr>
   \<and> stepIndex \<lparr>predictor = 100, stepIndex = 40\<rparr> \<le> 88 \<and> (13::nat) < 16
   \<and> decodeSample 13 \<lparr>predictor = 100, stepIndex = 40\<rparr>
       = spec_decode_sample 13 \<lparr>predictor = 100, stepIndex = 40\<rparr>
   \<and> spec_decode_sample 13 \<lparr>predictor = 100, stepIndex = 40\<rparr>
       = (- 363, \<lparr>predictor = - 363, stepIndex = 44\<rparr>)"
proof -
  have v: "spec_decode_sample 13 \<lparr>predictor = 100, stepIndex = 40\<rparr>
       = (- 363, \<lparr>predictor = - 363, stepIndex = 44\<rparr>)"
    by code_simp
  show ?thesis
    using v decodeSample_refines_spec [of "\<lparr>predictor = 100, stepIndex = 40\<rparr>" 13]
    by simp
qed



text \<open>
  C10: in every reachable decoder state and for every 4-bit code \<open>c\<close>, \<open>decodeSample(c)\<close>
  and \<open>decodeSample(c | 8)\<close> leave the same step index, and
  \<open>indexTable[c] = indexTable[c & 7]\<close>: the sign bit does not touch the step adaptation.
\<close>

theorem step_index_sign_independent:
  assumes "\<forall>c \<in> set codes. c < 16" and "c < 16"
  shows "stepIndex (snd (decodeSample c (decoder_after codes)))
           = stepIndex (snd (decodeSample (c OR 8) (decoder_after codes)))
         \<and> indexTable ! c = indexTable ! (c AND 7)"
  using indexTable_sign_bit [OF assms(2)] by (simp add: decodeSample_def Let_def)


theorem step_index_sign_independent_witness:
  "list_all (\<lambda>c. c < 16) [15, 7, 0, 12 :: nat] \<and> (5::nat) < 16
   \<and> stepIndex (snd (decodeSample 5 (decoder_after [15, 7, 0, 12]))) = 21
   \<and> stepIndex (snd (decodeSample (5 OR 8) (decoder_after [15, 7, 0, 12]))) = 21
   \<and> indexTable ! 5 = indexTable ! (5 AND 7)"
proof -
  have h: "\<forall>c \<in> set [15, 7, 0, 12 :: nat]. c < 16" by simp
  have v: "stepIndex (snd (decodeSample 5 (decoder_after [15, 7, 0, 12]))) = 21" by code_simp
  show ?thesis using h v step_index_sign_independent [OF h, of 5] by simp
qed

section \<open>Properties of the block decoder\<close>

lemma decode_loop_shift:
  "decode_loop (pre @ bs) (length pre + i) (length out + k) (out @ pcm) d
     = (out @ fst (decode_loop bs i k pcm d), snd (decode_loop bs i k pcm d))"
proof (induction bs i k pcm d rule: decode_loop.induct)
  case (1 bs i k pcm d)
  show ?case
  proof (cases "i < length bs")
    case True
    define byte where "byte = unat (bs ! i)"
    define r1 where "r1 = decodeSample (drop_bit 4 byte AND 0x0F) d"
    define pcm1 where "pcm1 = pcm[k := word_of_int (fst r1)]"
    define r2 where "r2 = decodeSample (byte AND 0x0F) (snd r1)"
    define pcm2 where "pcm2 = pcm1[k + 1 := word_of_int (fst r2)]"
    have nth: "(pre @ bs) ! (length pre + i) = bs ! i"
      by simp
    have upd: "(out @ xs)[length out + j := v] = out @ xs[j := v]" for v j xs
      by (simp add: list_update_append)
    have small: "decode_loop bs i k pcm d = decode_loop bs (i + 1) (k + 2) pcm2 (snd r2)"
      using True by (subst decode_loop.simps) (simp add: Let_def byte_def r1_def pcm1_def r2_def pcm2_def)
    have "length pre + i < length (pre @ bs)"
      using True by simp
    then have "decode_loop (pre @ bs) (length pre + i) (length out + k) (out @ pcm) d
        = decode_loop (pre @ bs) (length pre + i + 1) (length out + k + 2)
            ((out @ pcm)[length out + k := word_of_int (fst r1),
               length out + k + 1 := word_of_int (fst r2)]) (snd r2)"
      by (subst decode_loop.simps) (simp only: Let_def nth byte_def r1_def r2_def if_True)
    also have "(out @ pcm)[length out + k := word_of_int (fst r1),
               length out + k + 1 := word_of_int (fst r2)] = out @ pcm2"
      by (simp only: upd add.assoc pcm2_def pcm1_def)
    also have "decode_loop (pre @ bs) (length pre + i + 1) (length out + k + 2) (out @ pcm2) (snd r2)
        = (out @ fst (decode_loop bs (i + 1) (k + 2) pcm2 (snd r2)),
           snd (decode_loop bs (i + 1) (k + 2) pcm2 (snd r2)))"
      using "1.IH" [OF True byte_def r1_def pcm1_def r2_def pcm2_def]
      by (simp only: add.assoc)
    finally show ?thesis
      by (simp only: small)
  next
    case False
    then show ?thesis
      by (simp add: decode_loop.simps)
  qed
qed

lemma decode_Nil: "decode [] d = ([], d)"
  by (simp add: decode_def decode_loop.simps)

lemma decode_Cons:
  "decode (b # bs) d =
    (let r1 = decodeSample (drop_bit 4 (unat b) AND 0x0F) d;
         r2 = decodeSample (unat b AND 0x0F) (snd r1);
         r = decode bs (snd r2)
     in (word_of_int (fst r1) # word_of_int (fst r2) # fst r, snd r))"
proof -
  define r1 where "r1 = decodeSample (drop_bit 4 (unat b) AND 0x0F) d"
  define r2 where "r2 = decodeSample (unat b AND 0x0F) (snd r1)"
  define out :: "int16 list" where "out = [word_of_int (fst r1), word_of_int (fst r2)]"
  define pcm :: "int16 list" where "pcm = replicate (length bs * 2) 0"
  have "decode (b # bs) d
      = decode_loop (b # bs) 1 2
          ((replicate (length (b # bs) * 2) 0)[0 := word_of_int (fst r1),
             1 := word_of_int (fst r2)]) (snd r2)"
    unfolding decode_def
    by (subst decode_loop.simps) (simp add: Let_def r1_def r2_def numeral_2_eq_2)
  also have "(replicate (length (b # bs) * 2) 0)[0 := word_of_int (fst r1),
             1 := word_of_int (fst r2)] = out @ pcm"
    by (simp add: out_def pcm_def)
  also have "decode_loop (b # bs) 1 2 (out @ pcm) (snd r2)
      = decode_loop ([b] @ bs) (length [b] + 0) (length out + 0) (out @ pcm) (snd r2)"
    by (simp add: out_def numeral_2_eq_2)
  also have "\<dots> = (out @ fst (decode_loop bs 0 0 pcm (snd r2)),
                    snd (decode_loop bs 0 0 pcm (snd r2)))"
    by (rule decode_loop_shift)
  finally show ?thesis
    by (simp add: Let_def r1_def r2_def out_def pcm_def decode_def)
qed

lemma decode_length: "length (fst (decode bs d)) = 2 * length bs"
  by (induction bs arbitrary: d) (simp_all add: decode_Nil decode_Cons Let_def)

lemma decode_append:
  "decode (xs @ ys) d =
     (fst (decode xs d) @ fst (decode ys (snd (decode xs d))),
      snd (decode ys (snd (decode xs d))))"
  by (induction xs arbitrary: d) (simp_all add: decode_Nil decode_Cons Let_def)

lemma length_Buffer_from: "length (Buffer_from ws) = 2 * length ws"
  by (induction ws) (simp_all add: Buffer_from_def)

lemma Buffer_from_append: "Buffer_from (xs @ ys) = Buffer_from xs @ Buffer_from ys"
  by (simp add: Buffer_from_def)

lemma nibble_bound: "(n::nat) AND 0x0F < 16"
proof -
  have "n AND mask 4 = take_bit 4 n"
    by (simp add: take_bit_eq_mask)
  then show ?thesis by (simp add: mask_eq_exp_minus_1 take_bit_eq_mod)
qed

section \<open>Properties of the buffer operations and of the header\<close>

lemma length_overwrite: "length (overwrite buf off bs) = length buf"
  by (simp add: overwrite_def)

lemma nth_overwrite:
  "i < length buf \<Longrightarrow>
     overwrite buf off bs ! i = (if off \<le> i \<and> i < off + length bs then bs ! (i - off) else buf ! i)"
  by (auto simp add: overwrite_def nth_append)

lemma length_Buffer_copy: "length (Buffer_copy src tgt ts ss se) = length tgt"
  by (simp add: Buffer_copy_def length_overwrite)

lemma length_Buffer_write: "length (Buffer_write buf s off) = length buf"
  by (simp add: Buffer_write_def length_overwrite)

lemma length_writeInt32LE: "length (writeInt32LE buf v off) = length buf"
  by (simp add: writeInt32LE_def length_overwrite)

lemma length_writeInt16LE: "length (writeInt16LE buf v off) = length buf"
  by (simp add: writeInt16LE_def length_overwrite)

lemma length_Buffer_alloc: "length (Buffer_alloc n) = n"
  by (simp add: Buffer_alloc_def)

lemmas length_writes =
  length_Buffer_alloc length_Buffer_copy length_Buffer_write length_writeInt32LE length_writeInt16LE

lemma length_make_header: "length (make_header chunk) = 44"
  by (simp add: make_header_def length_writes)

lemma nth_Buffer_write:
  "i < length buf \<Longrightarrow>
     Buffer_write buf s off ! i
       = (if off \<le> i \<and> i < off + length s then of_char (s ! (i - off)) else buf ! i)"
  by (auto simp add: Buffer_write_def nth_overwrite)

lemma nth_writeInt32LE:
  "i < length buf \<Longrightarrow>
     writeInt32LE buf v off ! i
       = (if off \<le> i \<and> i < off + 4
          then [word_of_int v, word_of_int (drop_bit 8 v), word_of_int (drop_bit 16 v),
                word_of_int (drop_bit 24 v)] ! (i - off)
          else buf ! i)"
  by (simp add: writeInt32LE_def nth_overwrite)

lemma nth_writeInt16LE:
  "i < length buf \<Longrightarrow>
     writeInt16LE buf v off ! i
       = (if off \<le> i \<and> i < off + 2
          then [word_of_int v, word_of_int (drop_bit 8 v)] ! (i - off)
          else buf ! i)"
  by (simp add: writeInt16LE_def nth_overwrite)

lemma nth_header_copy:
  "i < 44 \<Longrightarrow>
     Buffer_copy chunk (Buffer_alloc 44) 0 0 44 ! i = (if i < length chunk then chunk ! i else 0)"
  by (simp add: Buffer_copy_def Buffer_alloc_def nth_overwrite)

lemmas nth_writes = nth_Buffer_write nth_writeInt32LE nth_writeInt16LE nth_header_copy


lemma header_offset_cases:
  fixes k :: nat
  assumes "k < 44"
  shows "k = 0 \<or> k = 1 \<or> k = 2 \<or> k = 3 \<or> k = 4 \<or> k = 5 \<or> k = 6 \<or> k = 7
     \<or> k = 8 \<or> k = 9 \<or> k = 10 \<or> k = 11 \<or> k = 12 \<or> k = 13 \<or> k = 14 \<or> k = 15
     \<or> k = 16 \<or> k = 17 \<or> k = 18 \<or> k = 19 \<or> k = 20 \<or> k = 21 \<or> k = 22 \<or> k = 23
     \<or> k = 24 \<or> k = 25 \<or> k = 26 \<or> k = 27 \<or> k = 28 \<or> k = 29 \<or> k = 30 \<or> k = 31
     \<or> k = 32 \<or> k = 33 \<or> k = 34 \<or> k = 35 \<or> k = 36 \<or> k = 37 \<or> k = 38 \<or> k = 39
     \<or> k = 40 \<or> k = 41 \<or> k = 42 \<or> k = 43"
  using assms by arith

lemma make_header_bytes:
  "make_header chunk =
     [82, 73, 70, 70, kept chunk 4, kept chunk 5, kept chunk 6, kept chunk 7,
      87, 65, 86, 69, 102, 109, 116, 32,
      16, 0, 0, 0, 1, 0, 1, 0,
      128, 62, 0, 0, 0, 125, 0, 0,
      2, 0, 16, 0, 100, 97, 116, 97,
      kept chunk 40, kept chunk 41, kept chunk 42, kept chunk 43]"
  (is "_ = ?bytes")
proof (rule nth_equalityI)
  show "length (make_header chunk) = length ?bytes"
    by (simp add: length_make_header)
next
  fix k
  assume "k < length (make_header chunk)"
  then have "k < 44"
    by (simp add: length_make_header)
  from header_offset_cases [OF this] show "make_header chunk ! k = ?bytes ! k"
    by (elim disjE; simp add: make_header_def nth_writes length_writes kept_def)
qed

section \<open>Properties of the streaming transform\<close>

lemma transform_callback_error: "callback_error (transform chunk t) = None"
  by (simp add: transform_def Let_def)

lemma pipe_Cons: "pipe t (chunk # chunks) = transform chunk t # pipe (this (transform chunk t)) chunks"
  by (simp add: Let_def transform_callback_error)

declare pipe.simps(2) [simp del]

lemma length_pipe: "length (pipe t chunks) = length chunks"
  by (induction chunks arbitrary: t) (simp_all add: pipe_Cons)

lemma transform_headerWritten: "headerWritten (this (transform chunk t))"
  by (simp add: transform_def Let_def)

lemma transform_streaming:
  "headerWritten t \<Longrightarrow>
     transform chunk t =
       \<lparr>pushed = [Buffer_from (fst (decode chunk (decoder t)))], callback_error = None,
        this = t\<lparr>decoder := snd (decode chunk (decoder t))\<rparr>\<rparr>"
  by (simp add: transform_def Let_def)

lemma transform_first:
  "\<not> headerWritten t \<Longrightarrow>
     pushed (transform chunk t) =
       make_header chunk #
         (if 44 < length chunk then [Buffer_from (fst (decode (drop 44 chunk) (decoder t)))] else [])
     \<and> this (transform chunk t) =
         t\<lparr>headerWritten := True, decoder := snd (decode (drop 44 chunk) (decoder t))\<rparr>"
  by (simp add: transform_def Let_def decode_Nil)

lemma sink_bytes_Cons: "sink_bytes (r # rs) = concat (pushed r) @ sink_bytes rs"
  by (simp add: sink_bytes_def)

lemma Buffer_from_Nil: "Buffer_from [] = []"
  by (simp add: Buffer_from_def)

lemma sink_bytes_streaming:
  "headerWritten t \<Longrightarrow>
     sink_bytes (pipe t chunks) = Buffer_from (fst (decode (concat chunks) (decoder t)))"
proof (induction chunks arbitrary: t)
  case Nil
  then show ?case by (simp add: sink_bytes_def decode_Nil Buffer_from_Nil)
next
  case (Cons c cs)
  have hw: "headerWritten (t\<lparr>decoder := snd (decode c (decoder t))\<rparr>)"
    using Cons.prems by simp
  show ?case
    using Cons.IH [OF hw] Cons.prems
    by (simp add: pipe_Cons sink_bytes_Cons transform_streaming decode_append Buffer_from_append)
qed

lemma sink_bytes_first:
  "\<not> headerWritten t \<Longrightarrow>
     sink_bytes (pipe t (chunk # chunks))
       = make_header chunk
           @ Buffer_from (fst (decode (drop 44 chunk @ concat chunks) (decoder t)))"
proof -
  assume first: "\<not> headerWritten t"
  define t' where "t' = this (transform chunk t)"
  have hw: "headerWritten t'"
    by (simp add: t'_def transform_headerWritten)
  have dec: "decoder t' = snd (decode (drop 44 chunk) (decoder t))"
    using transform_first [OF first, of chunk] by (simp add: t'_def)
  have push: "concat (pushed (transform chunk t))
      = make_header chunk @ Buffer_from (fst (decode (drop 44 chunk) (decoder t)))"
    using transform_first [OF first, of chunk] by (simp add: decode_Nil Buffer_from_Nil)
  show ?thesis
    using sink_bytes_streaming [OF hw, of chunks]
    by (simp add: pipe_Cons sink_bytes_Cons push dec decode_append Buffer_from_append
        flip: t'_def)
qed

lemma make_header_take: "make_header (take 44 chunk) = make_header chunk"
  by (simp add: make_header_bytes kept_def)

lemma make_header_prefix: "44 \<le> length chunk \<Longrightarrow> make_header (chunk @ rest) = make_header chunk"
  by (simp add: make_header_bytes kept_def nth_append)

lemma length_pcm: "length (Buffer_from (fst (decode bs d))) = 4 * length bs"
  by (simp add: length_Buffer_from decode_length)

text \<open>
  C1, chunking invariance: a byte sequence fed as consecutive sub-chunks, the first of
  at least 44 bytes, gives the sink the same bytes as the whole sequence fed as one
  chunk: the header made from its first 44 bytes, then the PCM bytes of everything
  after them, decoded by one decoder from its initial state.
\<close>

theorem chunking_invariance:
  assumes "44 \<le> length c"
  shows "sink_bytes (pipe new_ADPCMToPCMTransform (c # cs))
           = sink_bytes (pipe new_ADPCMToPCMTransform [concat (c # cs)])
       \<and> sink_bytes (pipe new_ADPCMToPCMTransform (c # cs))
           = make_header (take 44 (concat (c # cs)))
              @ Buffer_from (fst (decode (drop 44 (concat (c # cs))) new_ADPCMDecoder))"
proof -
  define whole where "whole = concat (c # cs)"
  have whole_eq: "whole = c @ concat cs"
    by (simp add: whole_def)
  have fresh: "\<not> headerWritten new_ADPCMToPCMTransform"
    "decoder new_ADPCMToPCMTransform = new_ADPCMDecoder"
    by (simp_all add: new_ADPCMToPCMTransform_def)
  have hdr: "make_header whole = make_header c"
    unfolding whole_eq using assms by (rule make_header_prefix)
  have pay: "drop 44 whole = drop 44 c @ concat cs"
    using assms by (simp add: whole_eq)
  have split: "sink_bytes (pipe new_ADPCMToPCMTransform (c # cs))
      = make_header whole @ Buffer_from (fst (decode (drop 44 whole) new_ADPCMDecoder))"
    using sink_bytes_first [OF fresh(1), of c cs] by (simp only: fresh(2) hdr pay)
  have one: "sink_bytes (pipe new_ADPCMToPCMTransform [whole])
      = make_header whole @ Buffer_from (fst (decode (drop 44 whole) new_ADPCMDecoder))"
    using sink_bytes_first [OF fresh(1), of whole "[]"] by (simp add: fresh(2))
  have "sink_bytes (pipe new_ADPCMToPCMTransform (c # cs))
           = sink_bytes (pipe new_ADPCMToPCMTransform [whole])
       \<and> sink_bytes (pipe new_ADPCMToPCMTransform (c # cs))
           = make_header (take 44 whole)
              @ Buffer_from (fst (decode (drop 44 whole) new_ADPCMDecoder))"
    by (simp only: split one make_header_take)
  then show ?thesis
    unfolding whole_def .
qed

theorem chunking_invariance_witness:
  "44 \<le> length example_chunk
   \<and> sink_bytes (pipe new_ADPCMToPCMTransform [example_chunk, [0x88], [], [0x12]])
       = sink_bytes (pipe new_ADPCMToPCMTransform [example_chunk @ [0x88, 0x12]])
   \<and> sink_bytes (pipe new_ADPCMToPCMTransform [example_chunk, [0x88], [], [0x12]])
       = [82, 73, 70, 70, 40, 0, 0, 0, 87, 65, 86, 69, 102, 109, 116, 32,
          16, 0, 0, 0, 1, 0, 1, 0, 128, 62, 0, 0, 0, 125, 0, 0,
          2, 0, 16, 0, 100, 97, 116, 97, 4, 0, 0, 0,
          245, 255, 247, 255, 16, 0, 216, 255, 208, 255, 201, 255, 220, 255, 251, 255]"
proof -
  have len: "44 \<le> length example_chunk"
    by (simp add: example_chunk_def example_header_def)
  have v: "sink_bytes (pipe new_ADPCMToPCMTransform [example_chunk, [0x88], [], [0x12]])
       = [82, 73, 70, 70, 40, 0, 0, 0, 87, 65, 86, 69, 102, 109, 116, 32,
          16, 0, 0, 0, 1, 0, 1, 0, 128, 62, 0, 0, 0, 125, 0, 0,
          2, 0, 16, 0, 100, 97, 116, 97, 4, 0, 0, 0,
          245, 255, 247, 255, 16, 0, 216, 255, 208, 255, 201, 255, 220, 255, 251, 255]"
    by code_simp
  have "sink_bytes (pipe new_ADPCMToPCMTransform [example_chunk, [0x88], [], [0x12]])
       = sink_bytes (pipe new_ADPCMToPCMTransform [concat [example_chunk, [0x88], [], [0x12]]])"
    using chunking_invariance [OF len, of "[[0x88], [], [0x12]]"] by (rule conjunct1)
  also have "concat [example_chunk, [0x88], [], [0x12 :: byte]] = example_chunk @ [0x88, 0x12]"
    by simp
  finally show ?thesis
    using len v by simp
qed

lemma stored_sample:
  "sint (word_of_int (fst (decodeSample c d)) :: int16) = fst (decodeSample c d)"
proof -
  have "- (2 ^ 15) \<le> fst (decodeSample c d)" "fst (decodeSample c d) < 2 ^ 15"
    using decodeSample_predictor [of c d] by (simp_all add: decodeSample_fst)
  then have "signed_take_bit 15 (fst (decodeSample c d)) = fst (decodeSample c d)"
    by (rule signed_take_bit_int_eq_self)
  then show ?thesis
    by (simp add: sint_sbintrunc')
qed

lemma new_transform_fresh:
  "\<not> headerWritten new_ADPCMToPCMTransform"
  "decoder new_ADPCMToPCMTransform = new_ADPCMDecoder"
  by (simp_all add: new_ADPCMToPCMTransform_def)

lemma sink_bytes_new:
  "sink_bytes (pipe new_ADPCMToPCMTransform (chunk # chunks))
     = make_header chunk
         @ Buffer_from (fst (decode (drop 44 chunk @ concat chunks) new_ADPCMDecoder))"
  using sink_bytes_first [OF new_transform_fresh(1), of chunk chunks]
  by (simp only: new_transform_fresh(2))

text \<open>
  C4: \<open>decode\<close> turns every input byte into two 16-bit samples, the one of the high
  nibble first, then the one of the low nibble, each stored as \<open>decodeSample\<close> returned
  it; \<open>N\<close> bytes give \<open>2N\<close> samples. The bytes that reach the sink are the 44-byte
  header and then exactly \<open>4N\<close> PCM bytes for the \<open>N\<close> payload bytes: the bytes of the
  first chunk from offset 44 on and all bytes of the later chunks.
\<close>

theorem two_samples_per_byte:
  "decode [] d = ([], d)
   \<and> decode (b # bs) d =
       (let r1 = decodeSample (drop_bit 4 (unat b) AND 0x0F) d;
            r2 = decodeSample (unat b AND 0x0F) (snd r1);
            r = decode bs (snd r2)
        in (word_of_int (fst r1) # word_of_int (fst r2) # fst r, snd r))
   \<and> sint (word_of_int (fst (decodeSample code d)) :: int16) = fst (decodeSample code d)
   \<and> length (fst (decode bs d)) = 2 * length bs
   \<and> sink_bytes (pipe new_ADPCMToPCMTransform (chunk # chunks))
       = make_header chunk
           @ Buffer_from (fst (decode (drop 44 chunk @ concat chunks) new_ADPCMDecoder))
   \<and> length (make_header chunk) = 44
   \<and> length (Buffer_from (fst (decode (drop 44 chunk @ concat chunks) new_ADPCMDecoder)))
       = 4 * length (drop 44 chunk @ concat chunks)"
  using decode_Nil [of d] decode_Cons [of b bs d] stored_sample [of code d]
    decode_length [of bs d] sink_bytes_new [of chunk chunks] length_make_header [of chunk]
    length_pcm [of "drop 44 chunk @ concat chunks" new_ADPCMDecoder]
  by (intro conjI)


lemma pipe_flags: "\<forall>r \<in> set (pipe t chunks). headerWritten (this r)"
  by (induction chunks arbitrary: t)
    (simp_all add: pipe_Cons transform_headerWritten)

lemma pipe_nth_Suc:
  "i < length chunks \<Longrightarrow>
     pipe t (chunk # chunks) ! Suc i
       = transform (chunks ! i) (this ((pipe t (chunk # chunks)) ! i))"
proof (induction chunks arbitrary: t chunk i)
  case Nil
  then show ?case by simp
next
  case (Cons c cs)
  show ?case
  proof (cases i)
    case 0
    then show ?thesis
      by (simp add: pipe_Cons)
  next
    case (Suc j)
    then have "j < length cs"
      using Cons.prems by simp
    from Cons.IH [OF this, of "this (transform chunk t)" c] show ?thesis
      by (simp add: pipe_Cons Suc)
  qed
qed

lemma pipe_later_pushes:
  assumes "i < length chunks"
  shows "pushed (pipe t (chunk # chunks) ! Suc i)
     = [Buffer_from (fst (decode (chunks ! i) (decoder (this (pipe t (chunk # chunks) ! i)))))]"
proof -
  have "i < length (pipe t (chunk # chunks))"
    using assms by (simp only: length_pipe length_Cons)
  then have "pipe t (chunk # chunks) ! i \<in> set (pipe t (chunk # chunks))"
    by (rule nth_mem)
  then have "headerWritten (this (pipe t (chunk # chunks) ! i))"
    using pipe_flags by blast
  then show ?thesis
    by (simp only: pipe_nth_Suc [OF assms] transform_streaming transform_result.select_convs)
qed

text \<open>
  C5, as the specification words it for every chunk sequence, fails on the empty one: a
  stream that ends without any chunk (a zero-byte upload) makes no call of
  \<open>_transform\<close>, so nothing reaches the sink, no header among it, and \<open>headerWritten\<close>
  is still false.
\<close>

theorem empty_stream_counterexample:
  "pipe new_ADPCMToPCMTransform [] = []
   \<and> sink_bytes (pipe new_ADPCMToPCMTransform []) = []
   \<and> length (sink_bytes (pipe new_ADPCMToPCMTransform [])) \<noteq> 44
   \<and> headerWritten new_ADPCMToPCMTransform = False"
  by (simp add: sink_bytes_def new_ADPCMToPCMTransform_def)

text \<open>
  C5, amended to the chunk sequences with at least one chunk: a new transform has
  \<open>headerWritten = false\<close>; fed the
  chunks \<open>chunk # chunks\<close> it makes one call per chunk; after every call
  \<open>headerWritten\<close> is true, so the flag flips once, in the first call; the first call
  pushes the 44-byte header first, then the PCM bytes of the rest of the first chunk if
  there is any; every later call pushes one buffer, the PCM bytes of its chunk, four per
  input byte; so the sink receives the header once, before all PCM bytes.
\<close>

theorem header_emitted_once:
  "(let rs = pipe new_ADPCMToPCMTransform (chunk # chunks) in
     \<not> headerWritten new_ADPCMToPCMTransform
     \<and> length rs = length (chunk # chunks)
     \<and> (\<forall>r \<in> set rs. headerWritten (this r))
     \<and> pushed (rs ! 0) =
          make_header chunk #
            (if 44 < length chunk
             then [Buffer_from (fst (decode (drop 44 chunk) new_ADPCMDecoder))] else [])
     \<and> length (make_header chunk) = 44
     \<and> (\<forall>i < length chunks.
            pushed (rs ! Suc i)
              = [Buffer_from (fst (decode (chunks ! i) (decoder (this (rs ! i)))))]
            \<and> length (concat (pushed (rs ! Suc i))) = 4 * length (chunks ! i))
     \<and> sink_bytes rs =
          make_header chunk
            @ Buffer_from (fst (decode (drop 44 chunk @ concat chunks) new_ADPCMDecoder)))"
proof -
  define rs where "rs = pipe new_ADPCMToPCMTransform (chunk # chunks)"
  have first: "pushed (rs ! 0) =
          make_header chunk #
            (if 44 < length chunk
             then [Buffer_from (fst (decode (drop 44 chunk) new_ADPCMDecoder))] else [])"
    using transform_first [OF new_transform_fresh(1), of chunk]
    by (simp add: rs_def pipe_Cons new_transform_fresh(2))
  have later: "pushed (rs ! Suc i)
              = [Buffer_from (fst (decode (chunks ! i) (decoder (this (rs ! i)))))]
            \<and> length (concat (pushed (rs ! Suc i))) = 4 * length (chunks ! i)"
    if "i < length chunks" for i
    using pipe_later_pushes [OF that, of new_ADPCMToPCMTransform chunk]
    by (simp add: rs_def length_pcm)
  have "\<not> headerWritten new_ADPCMToPCMTransform"
    by (rule new_transform_fresh)
  moreover have "length rs = length (chunk # chunks)"
    by (simp only: rs_def length_pipe)
  moreover have "\<forall>r \<in> set rs. headerWritten (this r)"
    unfolding rs_def by (rule pipe_flags)
  moreover note first length_make_header [of chunk]
  moreover have "\<forall>i < length chunks.
            pushed (rs ! Suc i)
              = [Buffer_from (fst (decode (chunks ! i) (decoder (this (rs ! i)))))]
            \<and> length (concat (pushed (rs ! Suc i))) = 4 * length (chunks ! i)"
    using later by blast
  moreover have "sink_bytes rs =
          make_header chunk
            @ Buffer_from (fst (decode (drop 44 chunk @ concat chunks) new_ADPCMDecoder))"
    unfolding rs_def by (rule sink_bytes_new)
  ultimately show ?thesis
    unfolding Let_def rs_def by (intro conjI)
qed

theorem header_emitted_once_witness:
  "\<not> headerWritten new_ADPCMToPCMTransform
   \<and> map (\<lambda>r. headerWritten (this r))
        (pipe new_ADPCMToPCMTransform [example_chunk, [0x88, 0x12]]) = [True, True]
   \<and> map pushed (pipe new_ADPCMToPCMTransform [example_chunk, [0x88, 0x12]])
       = [[[82, 73, 70, 70, 40, 0, 0, 0, 87, 65, 86, 69, 102, 109, 116, 32,
            16, 0, 0, 0, 1, 0, 1, 0, 128, 62, 0, 0, 0, 125, 0, 0,
            2, 0, 16, 0, 100, 97, 116, 97, 4, 0, 0, 0],
           [245, 255, 247, 255, 16, 0, 216, 255]],
          [[208, 255, 201, 255, 220, 255, 251, 255]]]
   \<and> length (pipe new_ADPCMToPCMTransform [example_chunk, [0x88, 0x12]]) = 2
   \<and> length (make_header example_chunk) = 44"
proof -
  have v1: "map (\<lambda>r. headerWritten (this r))
        (pipe new_ADPCMToPCMTransform [example_chunk, [0x88, 0x12]]) = [True, True]"
    by code_simp
  have v2: "map pushed (pipe new_ADPCMToPCMTransform [example_chunk, [0x88, 0x12]])
       = [[[82, 73, 70, 70, 40, 0, 0, 0, 87, 65, 86, 69, 102, 109, 116, 32,
            16, 0, 0, 0, 1, 0, 1, 0, 128, 62, 0, 0, 0, 125, 0, 0,
            2, 0, 16, 0, 100, 97, 116, 97, 4, 0, 0, 0],
           [245, 255, 247, 255, 16, 0, 216, 255]],
          [[208, 255, 201, 255, 220, 255, 251, 255]]]"
    by code_simp
  have t: "\<not> headerWritten new_ADPCMToPCMTransform
     \<and> length (pipe new_ADPCMToPCMTransform [example_chunk, [0x88, 0x12]]) = 2
     \<and> length (make_header example_chunk) = 44"
    using header_emitted_once [of example_chunk "[[0x88, 0x12]]"]
    unfolding Let_def by simp
  show ?thesis
    using v1 v2 t by simp
qed


lemma emitted_header:
  "take 44 (sink_bytes (pipe new_ADPCMToPCMTransform (chunk # chunks))) = make_header chunk"
  by (simp add: sink_bytes_new length_make_header)

lemma header_fields:
  "slice (make_header chunk) 0 4 = ascii ''RIFF''
   \<and> slice (make_header chunk) 8 12 = ascii ''WAVE''
   \<and> slice (make_header chunk) 12 16 = ascii ''fmt ''
   \<and> readUInt32LE (make_header chunk) 16 = 16
   \<and> readUInt16LE (make_header chunk) 20 = 1
   \<and> readUInt16LE (make_header chunk) 22 = 1
   \<and> readUInt32LE (make_header chunk) 24 = 16000
   \<and> readUInt32LE (make_header chunk) 28 = 32000
   \<and> readUInt16LE (make_header chunk) 32 = 2
   \<and> readUInt16LE (make_header chunk) 34 = 16
   \<and> slice (make_header chunk) 36 40 = ascii ''data''"
  by (simp add: make_header_bytes slice_def ascii_def readUInt16LE_def readUInt32LE_def)

text \<open>
  C6, the emitted header fields: when the first chunk has at least 44 bytes, the first
  44 bytes that reach the sink hold \<open>RIFF\<close> at 0--3, \<open>WAVE\<close> at 8--11, \<open>fmt \<close> at 12--15,
  the little-endian values 16 (\<open>fmt\<close> size) at 16--19, 1 (audio format) at 20--21,
  1 (channels) at 22--23, 16000 (sample rate) at 24--27, 32000 (byte rate) at 28--31,
  2 (block align) at 32--33, 16 (bits per sample) at 34--35, and \<open>data\<close> at 36--39.
\<close>

theorem emitted_header_fields:
  assumes "44 \<le> length chunk"
  shows "(let h = take 44 (sink_bytes (pipe new_ADPCMToPCMTransform (chunk # chunks))) in
     length h = 44
     \<and> slice h 0 4 = ascii ''RIFF''
     \<and> slice h 8 12 = ascii ''WAVE''
     \<and> slice h 12 16 = ascii ''fmt ''
     \<and> readUInt32LE h 16 = 16
     \<and> readUInt16LE h 20 = 1
     \<and> readUInt16LE h 22 = 1
     \<and> readUInt32LE h 24 = 16000
     \<and> readUInt32LE h 28 = 32000
     \<and> readUInt16LE h 32 = 2
     \<and> readUInt16LE h 34 = 16
     \<and> slice h 36 40 = ascii ''data'')"
  unfolding Let_def emitted_header
  using header_fields [of chunk] length_make_header [of chunk] by (intro conjI) blast+

theorem emitted_header_fields_witness:
  "44 \<le> length example_chunk
   \<and> take 44 (sink_bytes (pipe new_ADPCMToPCMTransform [example_chunk, [0x88, 0x12]]))
       = [82, 73, 70, 70, 40, 0, 0, 0, 87, 65, 86, 69, 102, 109, 116, 32,
          16, 0, 0, 0, 1, 0, 1, 0, 128, 62, 0, 0, 0, 125, 0, 0,
          2, 0, 16, 0, 100, 97, 116, 97, 4, 0, 0, 0]
   \<and> readUInt16LE (take 44 (sink_bytes
         (pipe new_ADPCMToPCMTransform [example_chunk, [0x88, 0x12]]))) 20 = 1
   \<and> readUInt32LE (take 44 (sink_bytes
         (pipe new_ADPCMToPCMTransform [example_chunk, [0x88, 0x12]]))) 24 = 16000
   \<and> readUInt16LE example_chunk 20 = 17"
proof -
  have len: "44 \<le> length example_chunk"
    by (simp add: example_chunk_def example_header_def)
  have v: "take 44 (sink_bytes (pipe new_ADPCMToPCMTransform [example_chunk, [0x88, 0x12]]))
       = [82, 73, 70, 70, 40, 0, 0, 0, 87, 65, 86, 69, 102, 109, 116, 32,
          16, 0, 0, 0, 1, 0, 1, 0, 128, 62, 0, 0, 0, 125, 0, 0,
          2, 0, 16, 0, 100, 97, 116, 97, 4, 0, 0, 0]"
    by code_simp
  have old: "readUInt16LE example_chunk 20 = 17"
    by code_simp
  have "readUInt16LE (take 44 (sink_bytes
         (pipe new_ADPCMToPCMTransform [example_chunk, [0x88, 0x12]]))) 20 = 1
     \<and> readUInt32LE (take 44 (sink_bytes
         (pipe new_ADPCMToPCMTransform [example_chunk, [0x88, 0x12]]))) 24 = 16000"
    using emitted_header_fields [OF len, of "[[0x88, 0x12]]"]
    unfolding Let_def by blast
  then show ?thesis
    using len v old by blast
qed

text \<open>
  C9, the \<open>data\<close> size field passes through: when the first chunk has at least 44
  bytes, the bytes 40--43 that reach the sink are the bytes 40--43 of that chunk,
  whatever payload follows; among the first 44 bytes, every byte that differs from the
  input lies at an offset below 40 (and outside 4--7, the \<open>RIFF\<close> size, which passes
  through as well).
\<close>

theorem data_size_passes_through:
  assumes "44 \<le> length chunk"
  shows "(let out = sink_bytes (pipe new_ADPCMToPCMTransform (chunk # chunks)) in
     slice out 40 44 = slice chunk 40 44
     \<and> slice out 4 8 = slice chunk 4 8
     \<and> (\<forall>i < 44. out ! i \<noteq> chunk ! i \<longrightarrow> i < 40 \<and> \<not> (4 \<le> i \<and> i < 8)))"
proof -
  define out where "out = sink_bytes (pipe new_ADPCMToPCMTransform (chunk # chunks))"
  have out: "out = make_header chunk
      @ Buffer_from (fst (decode (drop 44 chunk @ concat chunks) new_ADPCMDecoder))"
    by (simp only: out_def sink_bytes_new)
  have kept: "kept chunk i = chunk ! i" if "i < 44" for i
    using that assms by (simp add: kept_def)
  have nth: "out ! i = make_header chunk ! i" if "i < 44" for i
    using that by (simp add: out nth_append length_make_header)
  have tail: "slice out 40 44 = [chunk ! 40, chunk ! 41, chunk ! 42, chunk ! 43]"
    by (simp add: slice_def out length_make_header) (simp add: make_header_bytes kept)
  have size: "slice out 4 8 = [chunk ! 4, chunk ! 5, chunk ! 6, chunk ! 7]"
    by (simp add: slice_def out length_make_header) (simp add: make_header_bytes kept)
  have sl: "slice chunk k (k + 4) = [chunk ! k, chunk ! (k + 1), chunk ! (k + 2), chunk ! (k + 3)]"
    if "k + 4 \<le> length chunk" for k
  proof (rule nth_equalityI)
    show "length (slice chunk k (k + 4))
        = length [chunk ! k, chunk ! (k + 1), chunk ! (k + 2), chunk ! (k + 3)]"
      using that by (simp add: slice_def)
  next
    fix i assume "i < length (slice chunk k (k + 4))"
    then have "i < 4" using that by (simp add: slice_def)
    then have "i = 0 \<or> i = 1 \<or> i = 2 \<or> i = 3" by arith
    then show "slice chunk k (k + 4) ! i
        = [chunk ! k, chunk ! (k + 1), chunk ! (k + 2), chunk ! (k + 3)] ! i"
      using that by (elim disjE; simp add: slice_def)
  qed
  have frame: "i < 40 \<and> \<not> (4 \<le> i \<and> i < 8)" if "i < 44" "out ! i \<noteq> chunk ! i" for i
  proof (rule ccontr)
    assume "\<not> (i < 40 \<and> \<not> (4 \<le> i \<and> i < 8))"
    with that(1) have "i = 4 \<or> i = 5 \<or> i = 6 \<or> i = 7 \<or> i = 40 \<or> i = 41 \<or> i = 42 \<or> i = 43"
      by arith
    then have "make_header chunk ! i = chunk ! i"
      by (elim disjE; simp add: make_header_bytes kept)
    with that show False
      by (simp add: nth)
  qed
  have "slice out 40 44 = slice chunk 40 44"
    using sl [of 40] assms by (simp add: tail)
  moreover have "slice out 4 8 = slice chunk 4 8"
    using sl [of 4] assms by (simp add: size)
  moreover have "\<forall>i < 44. out ! i \<noteq> chunk ! i \<longrightarrow> i < 40 \<and> \<not> (4 \<le> i \<and> i < 8)"
    using frame by blast
  ultimately show ?thesis
    unfolding Let_def out_def by (intro conjI)
qed

theorem data_size_passes_through_witness:
  "44 \<le> length example_chunk
   \<and> slice example_chunk 40 44 = [4, 0, 0, 0]
   \<and> slice (sink_bytes (pipe new_ADPCMToPCMTransform [example_chunk, [0x88, 0x12]])) 40 44
       = [4, 0, 0, 0]
   \<and> length (sink_bytes (pipe new_ADPCMToPCMTransform [example_chunk, [0x88, 0x12]])) - 44
       = 16"
proof -
  have len: "44 \<le> length example_chunk"
    by (simp add: example_chunk_def example_header_def)
  have v: "slice example_chunk 40 44 = [4, 0, 0, 0]"
    by code_simp
  have n: "length (sink_bytes (pipe new_ADPCMToPCMTransform [example_chunk, [0x88, 0x12]])) - 44
       = 16"
    by code_simp
  have "slice (sink_bytes (pipe new_ADPCMToPCMTransform [example_chunk, [0x88, 0x12]])) 40 44
      = slice example_chunk 40 44"
    using data_size_passes_through [OF len, of "[[0x88, 0x12]]"]
    unfolding Let_def by blast
  then show ?thesis
    using len v n by simp
qed


text \<open>
  C7, as the specification words it, fails: a stream that ends after a single chunk of
  10 bytes is not reported as an error; the callback gets no error and the sink gets a
  44-byte header whose bytes 40--43 are the zeros of \<open>Buffer.alloc\<close>.
\<close>

theorem short_header_counterexample:
  "length [82, 73, 70, 70, 40, 0, 0, 0, 87, 65 :: byte] < 44
   \<and> map callback_error
        (pipe new_ADPCMToPCMTransform [[82, 73, 70, 70, 40, 0, 0, 0, 87, 65]]) = [None]
   \<and> sink_bytes (pipe new_ADPCMToPCMTransform [[82, 73, 70, 70, 40, 0, 0, 0, 87, 65]])
       = [82, 73, 70, 70, 40, 0, 0, 0, 87, 65, 86, 69, 102, 109, 116, 32,
          16, 0, 0, 0, 1, 0, 1, 0, 128, 62, 0, 0, 0, 125, 0, 0,
          2, 0, 16, 0, 100, 97, 116, 97, 0, 0, 0, 0]"
  by code_simp

text \<open>
  C7, amended: the transform surfaces no error, for any chunk in any state: every call
  ends with \<open>callback()\<close> without an error. When the first chunk has fewer than 44
  bytes, the call pushes a single buffer, a 44-byte header with the rewritten fields, in
  which each of the bytes 4--7 and 40--43 is the chunk's byte at that offset where the
  chunk has one and zero where it has none; it decodes nothing and sets
  \<open>headerWritten\<close>.
\<close>

theorem short_first_chunk_is_padded:
  assumes "length chunk < 44"
  shows "callback_error (transform c t) = None
     \<and> pushed (transform chunk new_ADPCMToPCMTransform) = [make_header chunk]
     \<and> make_header chunk =
         [82, 73, 70, 70, kept chunk 4, kept chunk 5, kept chunk 6, kept chunk 7,
          87, 65, 86, 69, 102, 109, 116, 32,
          16, 0, 0, 0, 1, 0, 1, 0,
          128, 62, 0, 0, 0, 125, 0, 0,
          2, 0, 16, 0, 100, 97, 116, 97,
          kept chunk 40, kept chunk 41, kept chunk 42, kept chunk 43]
     \<and> this (transform chunk new_ADPCMToPCMTransform)
         = new_ADPCMToPCMTransform\<lparr>headerWritten := True\<rparr>"
proof -
  have "pushed (transform chunk new_ADPCMToPCMTransform) = [make_header chunk]"
    using assms by (simp add: transform_def Let_def new_transform_fresh)
  moreover have "this (transform chunk new_ADPCMToPCMTransform)
         = new_ADPCMToPCMTransform\<lparr>headerWritten := True\<rparr>"
    using assms by (simp add: transform_def Let_def new_transform_fresh)
  ultimately show ?thesis
    using transform_callback_error [of c t] make_header_bytes [of chunk]
    by (intro conjI)
qed

theorem short_first_chunk_is_padded_witness:
  "length [82, 73, 70, 70, 40, 0, 0, 0, 87, 65 :: byte] < 44
   \<and> callback_error (transform [82, 73, 70, 70, 40, 0, 0, 0, 87, 65] new_ADPCMToPCMTransform)
       = None
   \<and> pushed (transform [82, 73, 70, 70, 40, 0, 0, 0, 87, 65] new_ADPCMToPCMTransform)
       = [make_header [82, 73, 70, 70, 40, 0, 0, 0, 87, 65]]
   \<and> make_header [82, 73, 70, 70, 40, 0, 0, 0, 87, 65]
       = [82, 73, 70, 70, 40, 0, 0, 0, 87, 65, 86, 69, 102, 109, 116, 32,
          16, 0, 0, 0, 1, 0, 1, 0, 128, 62, 0, 0, 0, 125, 0, 0,
          2, 0, 16, 0, 100, 97, 116, 97, 0, 0, 0, 0]
   \<and> headerWritten
        (this (transform [82, 73, 70, 70, 40, 0, 0, 0, 87, 65] new_ADPCMToPCMTransform))"
proof -
  have len: "length [82, 73, 70, 70, 40, 0, 0, 0, 87, 65 :: byte] < 44"
    by simp
  have v: "make_header [82, 73, 70, 70, 40, 0, 0, 0, 87, 65]
       = [82, 73, 70, 70, 40, 0, 0, 0, 87, 65, 86, 69, 102, 109, 116, 32,
          16, 0, 0, 0, 1, 0, 1, 0, 128, 62, 0, 0, 0, 125, 0, 0,
          2, 0, 16, 0, 100, 97, 116, 97, 0, 0, 0, 0]"
    by code_simp
  have "callback_error (transform [82, 73, 70, 70, 40, 0, 0, 0, 87, 65] new_ADPCMToPCMTransform)
       = None
     \<and> pushed (transform [82, 73, 70, 70, 40, 0, 0, 0, 87, 65] new_ADPCMToPCMTransform)
       = [make_header [82, 73, 70, 70, 40, 0, 0, 0, 87, 65]]
     \<and> this (transform [82, 73, 70, 70, 40, 0, 0, 0, 87, 65] new_ADPCMToPCMTransform)
         = new_ADPCMToPCMTransform\<lparr>headerWritten := True\<rparr>"
    using short_first_chunk_is_padded
      [OF len, of "[82, 73, 70, 70, 40, 0, 0, 0, 87, 65]" new_ADPCMToPCMTransform]
    by blast
  then show ?thesis
    using len v by simp
qed

end
